theory Spec2Isabelle
  imports Main "HOL-Library.AList"
begin

section \<open>Menu: the data of packages/apps/src/Menu/index.tsx\<close>

text \<open>
  \<open>Route['display']\<close>: the optional flags \<open>isHidden\<close>, \<open>needsAccounts\<close> and \<open>needsSudo\<close>
  are read only for their truthiness (absent is false); \<open>needsApi\<close> is an optional list of
  endpoint names, and \<open>!needsApi\<close> holds exactly when the field is absent (an empty array is
  truthy in JavaScript).
\<close>

record Display =
  isHidden :: bool
  needsAccounts :: bool
  needsApi :: "string list option"
  needsSudo :: bool

record Route =
  name :: string
  group :: string
  display :: Display

text \<open>
  \<open>ApiProps\<close>, as far as \<open>checkVisible\<close> reads it. The \<open>api\<close> object is the chain client;
  it is represented by the set of endpoint names it exposes.
\<close>

record ApiProps =
  api :: "string set"
  isApiConnected :: bool
  isApiReady :: bool

text \<open>
  A \<open>Group\<close> of the menu: its display name is \<open>groupNames[route.group]\<close>, which is
  \<open>undefined\<close> for a key without a display name. Its field \<open>name\<close> is \<open>groupName\<close> here,
  apart from the \<open>name\<close> of a route.
\<close>

record Group =
  groupName :: "string option"
  routes :: "Route list"

text \<open>
  The module-level \<open>disabledLog\<close> map, and the console: each entry \<open>Disabling route message\<close>
  stands for one call \<open>console.warn(`Disabling ${route}: ${message}`)\<close>.
\<close>

datatype warning = Disabling string string

record MenuState =
  disabledLog :: "string \<rightharpoonup> string"
  console :: "warning list"

definition initialState :: MenuState where
  "initialState = \<lparr>disabledLog = Map.empty, console = []\<rparr>"

fun warnedRoute :: "warning \<Rightarrow> string" where
  "warnedRoute (Disabling route message) = route"

definition warningsFor :: "string \<Rightarrow> MenuState \<Rightarrow> warning list" where
  "warningsFor route st = filter (\<lambda>w. warnedRoute w = route) (console st)"

section \<open>logDisabled and checkVisible\<close>

text \<open>
  \<open>!disabledLog.get(route)\<close> tests truthiness: \<open>undefined\<close> and the empty string are both
  falsy.
\<close>

definition truthy :: "string option \<Rightarrow> bool" where
  "truthy v = (case v of None \<Rightarrow> False | Some s \<Rightarrow> s \<noteq> [])"

definition logDisabled :: "string \<Rightarrow> string \<Rightarrow> MenuState \<Rightarrow> MenuState" where
  "logDisabled route message st =
     (if \<not> truthy (disabledLog st route)
      then \<lparr>disabledLog = (disabledLog st)(route \<mapsto> message),
            console = console st @ [Disabling route message]\<rparr>
      else st)"

text \<open>
  Modelled from the spec: \<open>findMissingApis\<close> is imported from \<open>../endpoint\<close>, which is not
  among the sources. The spec: "compute the subset of \<open>requiredCapabilities\<close> absent from
  \<open>capabilities\<close>"; the order of the required list is kept.
\<close>

definition findMissingApis :: "string set \<Rightarrow> string list \<Rightarrow> string list" where
  "findMissingApis capabilities needed = filter (\<lambda>c. c \<notin> capabilities) needed"

text \<open>\<open>Array.prototype.toString\<close> on an array of strings: the elements joined by commas.\<close>

fun arrayToString :: "string list \<Rightarrow> string" where
  "arrayToString [] = []"
| "arrayToString [x] = x"
| "arrayToString (x # y # ys) = x @ '','' @ arrayToString (y # ys)"

text \<open>
  \<open>checkVisible\<close> returns its verdict and the state of the log after the call; its first
  parameter \<open>name\<close> is \<open>routeName\<close> here.
\<close>

definition checkVisible ::
  "string \<Rightarrow> ApiProps \<Rightarrow> bool \<Rightarrow> bool \<Rightarrow> Display \<Rightarrow> MenuState \<Rightarrow> bool \<times> MenuState" where
  "checkVisible routeName apiProps hasAccounts hasSudo d st =
     (if isHidden d then (False, st)
      else if needsAccounts d \<and> \<not> hasAccounts then (False, st)
      else case needsApi d of
        None \<Rightarrow> (True, st)
      | Some needed \<Rightarrow>
          if \<not> isApiReady apiProps \<or> \<not> isApiConnected apiProps then (False, st)
          else if needsSudo d \<and> \<not> hasSudo
            then (False, logDisabled routeName ''Sudo key not available'' st)
          else
            let notFound = findMissingApis (api apiProps) needed;
                st' = (if length notFound \<noteq> 0
                       then logDisabled routeName
                              (''API not available: '' @ arrayToString notFound) st
                       else st)
            in (length notFound = 0, st'))"

text \<open>
  The process: the state of \<open>disabledLog\<close> and of the console changes only through calls of
  \<open>checkVisible\<close>; \<open>evolves st st'\<close> holds when \<open>st'\<close> comes from \<open>st\<close> by any number of them.
\<close>

inductive evolves :: "MenuState \<Rightarrow> MenuState \<Rightarrow> bool" where
  same: "evolves st st"
| call: "evolves st st' \<Longrightarrow>
         evolves st (snd (checkVisible routeName apiProps hasAccounts hasSudo d st'))"

section \<open>extractGroups\<close>

text \<open>
  The accumulator \<open>all\<close> of the \<open>reduce\<close> is a plain object: its own properties are kept as
  an association list in creation order. Reading \<open>all[key]\<close> also finds what
  \<open>Object.prototype\<close> provides; each of these is truthy and has no \<open>routes\<close>, so
  \<open>all[key].routes.push(route)\<close> throws a TypeError for such a key.
\<close>

datatype js_error = TypeError

definition objectPrototypeKeys :: "string list" where
  "objectPrototypeKeys =
     [''constructor'', ''__defineGetter__'', ''__defineSetter__'', ''hasOwnProperty'',
      ''__lookupGetter__'', ''__lookupSetter__'', ''isPrototypeOf'',
      ''propertyIsEnumerable'', ''toString'', ''valueOf'', ''__proto__'',
      ''toLocaleString'']"

fun reduceGroups ::
  "(string \<rightharpoonup> string) \<Rightarrow> Route list \<Rightarrow> (string \<times> Group) list
     \<Rightarrow> js_error + (string \<times> Group) list" where
  "reduceGroups groupNames [] all = Inr all"
| "reduceGroups groupNames (route # rest) all =
     (case map_of all (group route) of
        Some g \<Rightarrow>
          reduceGroups groupNames rest
            (AList.update (group route) (g\<lparr>routes := routes g @ [route]\<rparr>) all)
      | None \<Rightarrow>
          if group route \<in> set objectPrototypeKeys then Inl TypeError
          else reduceGroups groupNames rest
                 (AList.update (group route)
                    \<lparr>groupName = groupNames (group route), routes = [route]\<rparr> all))"

text \<open>
  \<open>Object.values\<close> lists the own properties whose key is an array index (a canonical
  decimal numeral below \<open>2^32 - 1\<close>) first, in ascending numeric order, and then the other
  keys in creation order.
\<close>

definition isDigit :: "char \<Rightarrow> bool" where
  "isDigit c = (c \<in> set ''0123456789'')"

definition decimalValue :: "string \<Rightarrow> nat" where
  "decimalValue s = foldl (\<lambda>n c. 10 * n + (of_char c - 48)) 0 s"

definition isArrayIndex :: "string \<Rightarrow> bool" where
  "isArrayIndex k =
     (k \<noteq> [] \<and> list_all isDigit k \<and> (k = ''0'' \<or> hd k \<noteq> CHR ''0'')
      \<and> decimalValue k < 4294967295)"

definition objectValues :: "(string \<times> 'v) list \<Rightarrow> 'v list" where
  "objectValues props =
     map snd (sort_key (\<lambda>p. decimalValue (fst p)) (filter (\<lambda>p. isArrayIndex (fst p)) props)
              @ filter (\<lambda>p. \<not> isArrayIndex (fst p)) props)"

text \<open>
  \<open>routes.filter(({ display, name }) => checkVisible(name, ...))\<close> and the \<open>map\<close> over the
  groups, with the state of the log handed from call to call in evaluation order.
\<close>

fun filterVisible ::
  "ApiProps \<Rightarrow> bool \<Rightarrow> bool \<Rightarrow> Route list \<Rightarrow> MenuState \<Rightarrow> Route list \<times> MenuState" where
  "filterVisible apiProps hasAccounts hasSudo [] st = ([], st)"
| "filterVisible apiProps hasAccounts hasSudo (route # rest) st =
     (let (visible, st1) = checkVisible (name route) apiProps hasAccounts hasSudo (display route) st;
          (kept, st2) = filterVisible apiProps hasAccounts hasSudo rest st1
      in (if visible then route # kept else kept, st2))"

fun mapGroups ::
  "ApiProps \<Rightarrow> bool \<Rightarrow> bool \<Rightarrow> Group list \<Rightarrow> MenuState \<Rightarrow> Group list \<times> MenuState" where
  "mapGroups apiProps hasAccounts hasSudo [] st = ([], st)"
| "mapGroups apiProps hasAccounts hasSudo (g # gs) st =
     (let (kept, st1) = filterVisible apiProps hasAccounts hasSudo (routes g) st;
          (gs', st2) = mapGroups apiProps hasAccounts hasSudo gs st1
      in (\<lparr>groupName = groupName g, routes = kept\<rparr> # gs', st2))"

definition extractGroups ::
  "Route list \<Rightarrow> (string \<rightharpoonup> string) \<Rightarrow> ApiProps \<Rightarrow> bool \<Rightarrow> bool \<Rightarrow> MenuState
     \<Rightarrow> (js_error + Group list) \<times> MenuState" where
  "extractGroups routing groupNames apiProps hasAccounts hasSudo st =
     (case reduceGroups groupNames routing [] of
        Inl e \<Rightarrow> (Inl e, st)
      | Inr all \<Rightarrow>
          let (mapped, st') = mapGroups apiProps hasAccounts hasSudo (objectValues all) st
          in (Inr (filter (\<lambda>g. length (routes g) \<noteq> 0) mapped), st'))"

section \<open>Staking account: role and effective guaranteed stake\<close>

datatype Role = Bonded | Guarantor | Candidate | Validator

text \<open>The \<open>if\<close> chain of the role effect, over the truthiness of its three flags.\<close>

definition classifyRole :: "bool \<Rightarrow> bool \<Rightarrow> bool \<Rightarrow> Role" where
  "classifyRole isGuarantor isValidator isCandidate =
     (if isGuarantor then Guarantor
      else if isCandidate then Candidate
      else if isValidator then Validator
      else Bonded)"

text \<open>
  What the role effect reads: the decoded \<open>guarantors\<close> query (\<open>null\<close> before it has
  loaded or when the chain stores none), the \<open>validators\<close> query (addresses, \<open>undefined\<close>
  before it has loaded) and the \<open>targets\<close> property with its optional \<open>waitingIds\<close>.
\<close>

record IndividualExposure =
  who :: string
  stake :: nat

record Guarantee =
  targets :: "IndividualExposure list"
  total :: nat
  submitted_in :: nat
  suppressed :: bool

record SortedTargets =
  waitingIds :: "string list option"

text \<open>\<open>Array.prototype.indexOf\<close>: the first position of the element, or \<open>-1\<close>.\<close>

fun indexOf :: "'a list \<Rightarrow> 'a \<Rightarrow> int" where
  "indexOf [] x = -1"
| "indexOf (y # ys) x =
     (if y = x then 0 else (let i = indexOf ys x in if i = -1 then -1 else i + 1))"

text \<open>
  The three flags, by their truthiness. \<open>guarantorInfo && ...\<close> and \<open>validators && ...\<close>
  are falsy when the query result is absent. \<open>targets.waitingIds?.indexOf(stashId) != -1\<close>
  compares \<open>undefined\<close> with \<open>-1\<close> when \<open>waitingIds\<close> is absent, which is true.
\<close>

definition isGuarantor :: "Guarantee option \<Rightarrow> bool" where
  "isGuarantor guarantorInfo =
     (case guarantorInfo of None \<Rightarrow> False | Some g \<Rightarrow> length (targets g) \<noteq> 0)"

definition isValidator :: "string list option \<Rightarrow> string \<Rightarrow> bool" where
  "isValidator validators stashId =
     (case validators of None \<Rightarrow> False | Some vs \<Rightarrow> indexOf vs stashId \<noteq> -1)"

definition isCandidate :: "SortedTargets option \<Rightarrow> string \<Rightarrow> bool" where
  "isCandidate sortedTargets stashId =
     (case sortedTargets of
        None \<Rightarrow> False
      | Some t \<Rightarrow> (case waitingIds t of None \<Rightarrow> True | Some ws \<Rightarrow> indexOf ws stashId \<noteq> -1))"

definition deriveRole ::
  "Guarantee option \<Rightarrow> string list option \<Rightarrow> SortedTargets option \<Rightarrow> string \<Rightarrow> Role" where
  "deriveRole guarantorInfo validators sortedTargets stashId =
     classifyRole (isGuarantor guarantorInfo) (isValidator validators stashId)
       (isCandidate sortedTargets stashId)"

text \<open>
  \<open>Number(value)\<close>: the double nearest to the integer, ties to the even significand of
  53 bits, as the integer it denotes (chain balances are far below the range where a
  double overflows).
\<close>

fun bitLength :: "nat \<Rightarrow> nat" where
  "bitLength n = (if n = 0 then 0 else Suc (bitLength (n div 2)))"

declare bitLength.simps [simp del]

definition Number :: "nat \<Rightarrow> nat" where
  "Number n =
     (let e = bitLength n - 53; q = n div 2 ^ e; r = n mod 2 ^ e
      in if 2 * r < 2 ^ e \<or> (2 * r = 2 ^ e \<and> even q) then q * 2 ^ e else (q + 1) * 2 ^ e)"

text \<open>
  \<open>new BN(Number(value).toString())\<close>. Below \<open>2^54\<close> the string has every digit of the
  double, and BN reads the same integer back. From there on \<open>toString\<close> prints the
  shortest digits that read back as the same double (and exponent notation from
  \<open>10^21\<close>), which this embedding does not describe: \<open>None\<close>.
\<close>

definition bnOfNumber :: "nat \<Rightarrow> nat option" where
  "bnOfNumber v = (let d = Number v in if d < 2 ^ 54 then Some d else None)"

text \<open>
  The stake effect: \<open>guaranteeTargets.reduce((total, { value }) =>
  total.add(new BN(Number(value).toString())), BN_ZERO)\<close>; the field \<open>value\<close> of a target is
  \<open>stake\<close> here, and the running \<open>total\<close> is \<open>acc\<close>.
\<close>

fun reduceStake :: "IndividualExposure list \<Rightarrow> nat \<Rightarrow> nat option" where
  "reduceStake [] acc = Some acc"
| "reduceStake (t # ts) acc =
     (case bnOfNumber (stake t) of
        None \<Rightarrow> None
      | Some b \<Rightarrow> reduceStake ts (acc + b))"

definition stakeValue :: "IndividualExposure list \<Rightarrow> nat option" where
  "stakeValue guaranteeTargets = reduceStake guaranteeTargets 0"

text \<open>The exact sum the stake is meant to be.\<close>

definition exactStake :: "IndividualExposure list \<Rightarrow> nat" where
  "exactStake guaranteeTargets = sum_list (map stake guaranteeTargets)"

section \<open>The visibility filter as the specification words it\<close>

text \<open>
  Group keys in first-seen order, each group's routes in insertion order, the groups
  without a visible route dropped; \<open>visible\<close> is the verdict on a route.
\<close>

fun firstSeen :: "'a list \<Rightarrow> 'a list" where
  "firstSeen [] = []"
| "firstSeen (x # xs) = x # filter (\<lambda>y. y \<noteq> x) (firstSeen xs)"

definition computeVisibleGroups ::
  "Route list \<Rightarrow> (string \<rightharpoonup> string) \<Rightarrow> (Route \<Rightarrow> bool) \<Rightarrow> Group list" where
  "computeVisibleGroups routing groupNames visible =
     filter (\<lambda>g. routes g \<noteq> [])
       (map (\<lambda>k. \<lparr>groupName = groupNames k,
                  routes = filter visible (filter (\<lambda>r. group r = k) routing)\<rparr>)
            (firstSeen (map group routing)))"

section \<open>The invariant of the log, and the inputs of the examples\<close>

text \<open>
  Every name in \<open>disabledLog\<close> holds a non-empty message and has exactly one line on the
  console, the one with that message; a name outside it has none.
\<close>

definition logConsistent :: "MenuState \<Rightarrow> bool" where
  "logConsistent st =
     (\<forall>route. case disabledLog st route of
        None \<Rightarrow> warningsFor route st = []
      | Some m \<Rightarrow> m \<noteq> [] \<and> warningsFor route st = [Disabling route m])"

text \<open>The verdict of \<open>checkVisible\<close> on a route; the state of the log has no part in it.\<close>

definition isVisible :: "ApiProps \<Rightarrow> bool \<Rightarrow> bool \<Rightarrow> Route \<Rightarrow> bool" where
  "isVisible apiProps hasAccounts hasSudo route =
     fst (checkVisible (name route) apiProps hasAccounts hasSudo (display route) initialState)"

text \<open>
  What the \<open>reduce\<close> of \<open>extractGroups\<close> has built after the routes \<open>rs\<close>, when no key is
  one of \<open>Object.prototype\<close>: one entry per group key, in first-seen order.
\<close>

definition grouped :: "(string \<rightharpoonup> string) \<Rightarrow> Route list \<Rightarrow> (string \<times> Group) list" where
  "grouped groupNames rs =
     map (\<lambda>k. (k, \<lparr>groupName = groupNames k, routes = filter (\<lambda>r. group r = k) rs\<rparr>))
       (firstSeen (map group rs))"

text \<open>Concrete inputs for the examples below.\<close>

definition exampleApi :: ApiProps where
  "exampleApi = \<lparr>api = {''query.staking.ledger''}, isApiConnected = True, isApiReady = True\<rparr>"

definition offlineApi :: ApiProps where
  "offlineApi = \<lparr>api = {}, isApiConnected = False, isApiReady = False\<rparr>"

definition stakingDisplay :: Display where
  "stakingDisplay = \<lparr>isHidden = False, needsAccounts = True,
     needsApi = Some [''query.staking.ledger''], needsSudo = False\<rparr>"

definition hiddenDisplay :: Display where
  "hiddenDisplay = \<lparr>isHidden = True, needsAccounts = False,
     needsApi = Some [''query.staking.ledger''], needsSudo = False\<rparr>"

definition sudoDisplay :: Display where
  "sudoDisplay = \<lparr>isHidden = False, needsAccounts = True,
     needsApi = Some [''tx.sudo.setKey''], needsSudo = True\<rparr>"

definition settingsDisplay :: Display where
  "settingsDisplay = \<lparr>isHidden = False, needsAccounts = False,
     needsApi = None, needsSudo = False\<rparr>"

definition accountsRoute :: Route where
  "accountsRoute = \<lparr>name = ''accounts'', group = ''accounts'', display = settingsDisplay\<rparr>"

definition stakingRoute :: Route where
  "stakingRoute = \<lparr>name = ''staking'', group = ''network'', display = stakingDisplay\<rparr>"

definition hiddenRoute :: Route where
  "hiddenRoute = \<lparr>name = ''parachains'', group = ''network'', display = hiddenDisplay\<rparr>"

definition sudoRoute :: Route where
  "sudoRoute = \<lparr>name = ''sudo'', group = ''developer'', display = sudoDisplay\<rparr>"

definition explorerRoute :: Route where
  "explorerRoute = \<lparr>name = ''explorer'', group = ''network'', display = settingsDisplay\<rparr>"

definition settingsRoute :: Route where
  "settingsRoute = \<lparr>name = ''settings'', group = ''settings'', display = settingsDisplay\<rparr>"

definition exampleRouting :: "Route list" where
  "exampleRouting =
     [stakingRoute, accountsRoute, hiddenRoute, sudoRoute, explorerRoute, settingsRoute]"

definition exampleNames :: "string \<rightharpoonup> string" where
  "exampleNames = [''accounts'' \<mapsto> ''Accounts'', ''developer'' \<mapsto> ''Developer'',
     ''network'' \<mapsto> ''Network'', ''settings'' \<mapsto> ''Settings'']"

definition secondRoute :: Route where
  "secondRoute = \<lparr>name = ''second'', group = ''2'', display = settingsDisplay\<rparr>"

definition firstRoute :: Route where
  "firstRoute = \<lparr>name = ''first'', group = ''1'', display = settingsDisplay\<rparr>"

section \<open>The role classifier\<close>

text \<open>
  C2. The classifier takes the first true flag in the order Guarantor, Candidate,
  Validator, and is Bonded when none is set, on all eight inputs: a guarantor is a
  Guarantor whatever the other two flags are (also when it is a validator), a candidate
  that is no guarantor is a Candidate whether or not it is a validator, a validator that
  is neither is a Validator, and an account with no flag set is Bonded.
\<close>

theorem classifyRole_precedence:
  "classifyRole True v c = Guarantor
   \<and> classifyRole False v True = Candidate
   \<and> classifyRole False True True = Candidate
   \<and> classifyRole False False True = Candidate
   \<and> classifyRole False True False = Validator
   \<and> classifyRole False False False = Bonded"
  by (simp add: classifyRole_def)

section \<open>The verdict of checkVisible\<close>

lemmas example_defs = exampleApi_def offlineApi_def stakingDisplay_def hiddenDisplay_def
  sudoDisplay_def settingsDisplay_def initialState_def

lemmas check_defs = checkVisible_def findMissingApis_def logDisabled_def truthy_def

lemmas route_defs = accountsRoute_def stakingRoute_def hiddenRoute_def sudoRoute_def
  explorerRoute_def settingsRoute_def exampleRouting_def exampleNames_def secondRoute_def
  firstRoute_def

lemmas group_defs = extractGroups_def objectValues_def isArrayIndex_def isDigit_def
  decimalValue_def objectPrototypeKeys_def

lemma checkVisible_verdict:
  "fst (checkVisible routeName apiProps hasAccounts hasSudo d st) =
     (\<not> isHidden d \<and> (needsAccounts d \<longrightarrow> hasAccounts) \<and>
      (case needsApi d of
         None \<Rightarrow> True
       | Some needed \<Rightarrow>
           isApiReady apiProps \<and> isApiConnected apiProps \<and> (needsSudo d \<longrightarrow> hasSudo) \<and>
           set needed \<subseteq> api apiProps))"
  by (auto simp: checkVisible_def findMissingApis_def Let_def filter_empty_conv
      split: option.splits)

lemma checkVisible_verdict_state:
  "fst (checkVisible routeName apiProps hasAccounts hasSudo d st) =
   fst (checkVisible routeName' apiProps hasAccounts hasSudo d st')"
  by (simp add: checkVisible_verdict)

text \<open>
  The claim that a route with required capabilities is visible exactly when the API is
  connected and ready and exposes them all fails for a hidden route: nothing is missing,
  and the route is not visible.
\<close>

theorem visible_iff_connected_and_capable_counterexample:
  "needsApi hiddenDisplay = Some [''query.staking.ledger'']
   \<and> isApiConnected exampleApi \<and> isApiReady exampleApi
   \<and> set [''query.staking.ledger''] \<subseteq> api exampleApi
   \<and> \<not> fst (checkVisible ''staking'' exampleApi True True hiddenDisplay initialState)"
  by (simp add: check_defs example_defs)

text \<open>
  C1, as the code has it. A route whose \<open>needsApi\<close> list is non-empty is visible if and
  only if it is not hidden, accounts are present when it needs them, the API is connected
  and ready, the sudo key is held when it needs sudo, and every endpoint of the list is
  exposed.
\<close>

theorem visible_iff_all_gates:
  assumes "needsApi d = Some needed" and "needed \<noteq> []"
  shows "fst (checkVisible routeName apiProps hasAccounts hasSudo d st) =
     (\<not> isHidden d \<and> (needsAccounts d \<longrightarrow> hasAccounts)
      \<and> isApiConnected apiProps \<and> isApiReady apiProps
      \<and> (needsSudo d \<longrightarrow> hasSudo)
      \<and> (\<forall>c \<in> set needed. c \<in> api apiProps))"
  using assms(1) by (auto simp: checkVisible_verdict)

theorem visible_iff_all_gates_witness:
  "needsApi stakingDisplay = Some [''query.staking.ledger'']
   \<and> fst (checkVisible ''staking'' exampleApi True False stakingDisplay initialState)
   \<and> \<not> fst (checkVisible ''staking'' offlineApi True False stakingDisplay initialState)"
  using visible_iff_all_gates [of stakingDisplay "[''query.staking.ledger'']" "''staking''"
      exampleApi True False initialState]
    visible_iff_all_gates [of stakingDisplay "[''query.staking.ledger'']" "''staking''"
      offlineApi True False initialState]
  by (simp add: example_defs)

text \<open>
  C8. A route without \<open>needsApi\<close> gets the same verdict in any two runs that differ in the
  capability set, in the connection flags \<open>isApiConnected\<close> and \<open>isApiReady\<close> (and in the
  state of the log).
\<close>

theorem no_api_route_independent:
  assumes "needsApi d = None"
  shows "fst (checkVisible routeName apiProps hasAccounts hasSudo d st) =
         fst (checkVisible routeName apiProps' hasAccounts hasSudo d st')"
  using assms by (simp add: checkVisible_verdict)

theorem no_api_route_independent_witness:
  "needsApi settingsDisplay = None
   \<and> fst (checkVisible ''settings'' exampleApi False False settingsDisplay initialState)
   \<and> fst (checkVisible ''settings'' offlineApi False False settingsDisplay initialState)"
  using no_api_route_independent [of settingsDisplay "''settings''" exampleApi False False
      initialState offlineApi initialState]
  by (simp add: check_defs example_defs)

section \<open>The diagnostic log\<close>

lemma logConsistent_initial: "logConsistent initialState"
  by (simp add: logConsistent_def initialState_def warningsFor_def)

lemma logDisabled_recorded:
  assumes "logConsistent st" and "disabledLog st route = Some m"
  shows "logDisabled route message st = st"
proof -
  from assms have "m \<noteq> []"
    by (auto simp: logConsistent_def split: option.splits dest!: spec [of _ route])
  with assms(2) show ?thesis
    by (simp add: logDisabled_def truthy_def)
qed

lemma logDisabled_consistent:
  assumes "logConsistent st" and "message \<noteq> []"
  shows "logConsistent (logDisabled route message st)"
proof (cases "disabledLog st route")
  case (Some m)
  with assms(1) show ?thesis by (simp add: logDisabled_recorded)
next
  case None
  have "case disabledLog (logDisabled route message st) r of
          None \<Rightarrow> warningsFor r (logDisabled route message st) = []
        | Some m \<Rightarrow> m \<noteq> [] \<and> warningsFor r (logDisabled route message st) = [Disabling r m]" for r
    using assms None spec [OF assms(1) [unfolded logConsistent_def], of r]
    by (auto simp: logDisabled_def truthy_def warningsFor_def split: option.splits)
  then show ?thesis by (simp add: logConsistent_def)
qed

lemma checkVisible_cases:
  "snd (checkVisible routeName apiProps hasAccounts hasSudo d st) = st
   \<or> (\<exists>message. message \<noteq> [] \<and>
        snd (checkVisible routeName apiProps hasAccounts hasSudo d st) = logDisabled routeName message st)"
  by (auto simp: checkVisible_def Let_def split: option.splits)

lemma checkVisible_consistent:
  "logConsistent st \<Longrightarrow> logConsistent (snd (checkVisible routeName apiProps hasAccounts hasSudo d st))"
  using checkVisible_cases [of routeName apiProps hasAccounts hasSudo d st]
  by (auto simp: logDisabled_consistent)

lemma evolves_consistent: "evolves st st' \<Longrightarrow> logConsistent st \<Longrightarrow> logConsistent st'"
  by (induction rule: evolves.induct) (auto simp: checkVisible_consistent)

lemma logDisabled_other:
  "route \<noteq> route' \<Longrightarrow>
   disabledLog (logDisabled route' message st) route = disabledLog st route
   \<and> warningsFor route (logDisabled route' message st) = warningsFor route st"
  by (auto simp: logDisabled_def warningsFor_def)

lemma checkVisible_keeps:
  assumes "logConsistent st" and "disabledLog st route = Some m"
  shows "disabledLog (snd (checkVisible routeName apiProps hasAccounts hasSudo d st)) route = Some m
         \<and> warningsFor route (snd (checkVisible routeName apiProps hasAccounts hasSudo d st))
             = warningsFor route st"
  using checkVisible_cases [of routeName apiProps hasAccounts hasSudo d st] assms
  by (cases "route = routeName") (auto simp: logDisabled_recorded logDisabled_other)

lemma evolves_keeps:
  "evolves st st' \<Longrightarrow> logConsistent st \<Longrightarrow> disabledLog st route = Some m \<Longrightarrow>
   disabledLog st' route = Some m \<and> warningsFor route st' = warningsFor route st"
proof (induction rule: evolves.induct)
  case (same st)
  then show ?case by simp
next
  case (call st st' routeName apiProps hasAccounts hasSudo d)
  then have "logConsistent st'" by (simp add: evolves_consistent)
  with call show ?case by (simp add: checkVisible_keeps)
qed

lemma evolves_trans: "evolves st' st'' \<Longrightarrow> evolves st st' \<Longrightarrow> evolves st st''"
  by (induction rule: evolves.induct) (auto intro: evolves.intros)

lemma filterVisible_evolves:
  "evolves st0 st \<Longrightarrow> evolves st0 (snd (filterVisible apiProps hasAccounts hasSudo rs st))"
proof (induction rs arbitrary: st)
  case Nil
  then show ?case by simp
next
  case (Cons r rs)
  have "evolves st0 (snd (checkVisible (name r) apiProps hasAccounts hasSudo (display r) st))"
    using Cons.prems by (rule evolves.call)
  from Cons.IH [OF this] show ?case
    by (simp add: split_beta)
qed

lemma mapGroups_evolves:
  "evolves st0 st \<Longrightarrow> evolves st0 (snd (mapGroups apiProps hasAccounts hasSudo gs st))"
proof (induction gs arbitrary: st)
  case Nil
  then show ?case by simp
next
  case (Cons g gs)
  from Cons.IH [OF filterVisible_evolves [OF Cons.prems]] show ?case
    by (simp add: split_beta)
qed

lemma extractGroups_evolves:
  "evolves st0 st \<Longrightarrow>
   evolves st0 (snd (extractGroups routing groupNames apiProps hasAccounts hasSudo st))"
  by (auto simp: extractGroups_def split_beta mapGroups_evolves split: sum.splits)

lemma logConsistent_at:
  "logConsistent st \<Longrightarrow>
   (disabledLog st route = None \<and> warningsFor route st = [])
   \<or> (\<exists>m. disabledLog st route = Some m \<and> m \<noteq> [] \<and> warningsFor route st = [Disabling route m])"
  unfolding logConsistent_def
  by (drule spec [of _ route]) (cases "disabledLog st route"; simp)

lemma warnings_at_most_one: "logConsistent st \<Longrightarrow> length (warningsFor route st) \<le> 1"
  using logConsistent_at [of st route] by auto

lemma warned_recorded:
  "logConsistent st \<Longrightarrow> warningsFor route st \<noteq> [] \<Longrightarrow> \<exists>m. disabledLog st route = Some m"
  using logConsistent_at [of st route] by auto

lemma evolves_map_le:
  assumes "evolves st st'" and "logConsistent st"
  shows "disabledLog st \<subseteq>\<^sub>m disabledLog st'"
  unfolding map_le_def
proof
  fix route assume "route \<in> dom (disabledLog st)"
  then obtain m where "disabledLog st route = Some m" by auto
  with evolves_keeps [OF assms] show "disabledLog st route = disabledLog st' route"
    by simp
qed

text \<open>
  C6. A route that reaches the sudo check with \<open>needsSudo\<close> set and no sudo key is not
  visible, and the call is \<open>logDisabled\<close> with the message "Sudo key not available" under
  the route's name: nothing happens when the name already has a message, otherwise the
  message is stored and one line is written. The capability set plays no part (the check
  comes before \<open>findMissingApis\<close>), and in a running process the name never has more
  than one line.
\<close>

theorem sudo_check:
  assumes "\<not> isHidden d" and "needsAccounts d \<longrightarrow> hasAccounts"
    and "needsApi d = Some needed"
    and "isApiReady apiProps" and "isApiConnected apiProps"
    and "needsSudo d" and "\<not> hasSudo"
  shows "checkVisible routeName apiProps hasAccounts hasSudo d st
           = (False, logDisabled routeName ''Sudo key not available'' st)
     \<and> checkVisible routeName (apiProps\<lparr>api := capabilities\<rparr>) hasAccounts hasSudo d st
           = checkVisible routeName apiProps hasAccounts hasSudo d st
     \<and> (truthy (disabledLog st routeName)
          \<longrightarrow> logDisabled routeName ''Sudo key not available'' st = st)
     \<and> (\<not> truthy (disabledLog st routeName)
          \<longrightarrow> logDisabled routeName ''Sudo key not available'' st
              = \<lparr>disabledLog = (disabledLog st)(routeName \<mapsto> ''Sudo key not available''),
                 console = console st @ [Disabling routeName ''Sudo key not available'']\<rparr>)
     \<and> (evolves initialState st
          \<longrightarrow> length (warningsFor routeName
                 (snd (checkVisible routeName apiProps hasAccounts hasSudo d st))) \<le> 1)"
proof -
  have "logConsistent (snd (checkVisible routeName apiProps hasAccounts hasSudo d st))"
    if "evolves initialState st"
    using that logConsistent_initial
    by (auto intro!: checkVisible_consistent elim: evolves_consistent)
  then have "evolves initialState st
          \<longrightarrow> length (warningsFor routeName
                 (snd (checkVisible routeName apiProps hasAccounts hasSudo d st))) \<le> 1"
    using warnings_at_most_one by blast
  moreover have "checkVisible routeName apiProps hasAccounts hasSudo d st
           = (False, logDisabled routeName ''Sudo key not available'' st)"
     and "checkVisible routeName (apiProps\<lparr>api := capabilities\<rparr>) hasAccounts hasSudo d st
           = checkVisible routeName apiProps hasAccounts hasSudo d st"
    using assms by (auto simp: checkVisible_def)
  ultimately show ?thesis
    by (simp add: logDisabled_def)
qed

theorem sudo_check_witness:
  "checkVisible ''sudo'' exampleApi True False sudoDisplay initialState
     = (False, \<lparr>disabledLog = [''sudo'' \<mapsto> ''Sudo key not available''],
               console = [Disabling ''sudo'' ''Sudo key not available'']\<rparr>)
   \<and> findMissingApis (api exampleApi) [''tx.sudo.setKey''] = [''tx.sudo.setKey'']"
  using sudo_check [where d = sudoDisplay and hasAccounts = True
      and needed = "[''tx.sudo.setKey'']" and apiProps = exampleApi and hasSudo = False
      and routeName = "''sudo''" and st = initialState and capabilities = "{}"]
  by (simp add: example_defs logDisabled_def truthy_def findMissingApis_def)

text \<open>
  C9. In every state the process can reach, the console holds at most one line for a
  route name, also after a further run of \<open>extractGroups\<close>; once a name has its line, no
  later evaluation adds another for it.
\<close>

theorem diagnostic_at_most_once:
  assumes "evolves initialState st"
  shows "length (warningsFor route st) \<le> 1
    \<and> length (warningsFor route
          (snd (extractGroups routing groupNames apiProps hasAccounts hasSudo st))) \<le> 1
    \<and> (\<forall>st'. warningsFor route st \<noteq> [] \<and> evolves st st'
          \<longrightarrow> warningsFor route st' = warningsFor route st)"
proof -
  have c: "logConsistent st"
    using assms logConsistent_initial by (rule evolves_consistent)
  have "evolves st (snd (extractGroups routing groupNames apiProps hasAccounts hasSudo st))"
    by (rule extractGroups_evolves) (rule evolves.same)
  then have "logConsistent (snd (extractGroups routing groupNames apiProps hasAccounts hasSudo st))"
    using c by (rule evolves_consistent)
  then have rerender: "length (warningsFor route
      (snd (extractGroups routing groupNames apiProps hasAccounts hasSudo st))) \<le> 1"
    by (rule warnings_at_most_one)
  have now: "length (warningsFor route st) \<le> 1"
    using c by (rule warnings_at_most_one)
  have "warningsFor route st' = warningsFor route st"
    if "warningsFor route st \<noteq> []" and "evolves st st'" for st'
  proof -
    from warned_recorded [OF c that(1)] obtain m where "disabledLog st route = Some m" ..
    with evolves_keeps [OF that(2) c] show ?thesis by simp
  qed
  with now rerender show ?thesis by blast
qed

theorem diagnostic_at_most_once_witness:
  "warningsFor ''sudo''
     (snd (checkVisible ''sudo'' exampleApi True False sudoDisplay
        (snd (checkVisible ''sudo'' exampleApi True False sudoDisplay initialState))))
   = [Disabling ''sudo'' ''Sudo key not available'']
   \<and> length (warningsFor ''sudo''
     (snd (checkVisible ''sudo'' exampleApi True False sudoDisplay
        (snd (checkVisible ''sudo'' exampleApi True False sudoDisplay initialState))))) \<le> 1"
proof -
  have "evolves initialState
     (snd (checkVisible ''sudo'' exampleApi True False sudoDisplay
        (snd (checkVisible ''sudo'' exampleApi True False sudoDisplay initialState))))"
    by (intro evolves.call evolves.same)
  from diagnostic_at_most_once [OF this, of "''sudo''"] show ?thesis
    by (simp add: check_defs example_defs warningsFor_def)
qed

text \<open>
  C10. Once the process has recorded a message for a route name, a later \<open>logDisabled\<close>
  for that name changes nothing, whatever message it carries: the stored message and the
  console lines of the name stay as they are, every earlier entry of the map is kept, and
  a call of \<open>logDisabled\<close> never removes a name from the map.
\<close>

theorem recorded_message_is_final:
  assumes "evolves initialState st" and "disabledLog st route = Some m" and "evolves st st'"
  shows "logDisabled route message st' = st'
     \<and> disabledLog st' route = Some m
     \<and> warningsFor route st' = warningsFor route st
     \<and> disabledLog st \<subseteq>\<^sub>m disabledLog st'
     \<and> dom (disabledLog st') \<subseteq> dom (disabledLog (logDisabled route' message' st'))"
proof -
  have c: "logConsistent st"
    using assms(1) logConsistent_initial by (rule evolves_consistent)
  have c': "logConsistent st'"
    using assms(3) c by (rule evolves_consistent)
  have keeps: "disabledLog st' route = Some m \<and> warningsFor route st' = warningsFor route st"
    using assms(3) c assms(2) by (rule evolves_keeps)
  then have "logDisabled route message st' = st'"
    using c' by (simp add: logDisabled_recorded)
  moreover have "disabledLog st \<subseteq>\<^sub>m disabledLog st'"
    using assms(3) c by (rule evolves_map_le)
  moreover have "dom (disabledLog st') \<subseteq> dom (disabledLog (logDisabled route' message' st'))"
    by (auto simp: logDisabled_def)
  ultimately show ?thesis using keeps by simp
qed

theorem recorded_message_is_final_witness:
  "checkVisible ''sudo'' exampleApi True True sudoDisplay
      (snd (checkVisible ''sudo'' exampleApi True False sudoDisplay initialState))
    = (False, \<lparr>disabledLog = [''sudo'' \<mapsto> ''Sudo key not available''],
               console = [Disabling ''sudo'' ''Sudo key not available'']\<rparr>)
   \<and> logDisabled ''sudo'' ''API not available: tx.sudo.setKey''
        (snd (checkVisible ''sudo'' exampleApi True True sudoDisplay
          (snd (checkVisible ''sudo'' exampleApi True False sudoDisplay initialState))))
      = snd (checkVisible ''sudo'' exampleApi True True sudoDisplay
          (snd (checkVisible ''sudo'' exampleApi True False sudoDisplay initialState)))"
proof -
  let ?st = "snd (checkVisible ''sudo'' exampleApi True False sudoDisplay initialState)"
  let ?st' = "snd (checkVisible ''sudo'' exampleApi True True sudoDisplay ?st)"
  have r: "evolves initialState ?st" by (intro evolves.call evolves.same)
  have l: "evolves ?st ?st'" by (intro evolves.call evolves.same)
  have m: "disabledLog ?st ''sudo'' = Some ''Sudo key not available''"
    by (simp add: check_defs example_defs)
  from recorded_message_is_final [OF r m l, of "''API not available: tx.sudo.setKey''"]
  show ?thesis
    by (simp add: check_defs example_defs)
qed

section \<open>The groups of extractGroups\<close>

lemma filterVisible_fst:
  "fst (filterVisible apiProps hasAccounts hasSudo rs st) = filter (isVisible apiProps hasAccounts hasSudo) rs"
proof (induction rs arbitrary: st)
  case Nil
  then show ?case by simp
next
  case (Cons r rs)
  have "fst (checkVisible (name r) apiProps hasAccounts hasSudo (display r) st)
      = isVisible apiProps hasAccounts hasSudo r"
    unfolding isVisible_def by (rule checkVisible_verdict_state)
  with Cons.IH show ?case
    by (simp add: split_beta)
qed

lemma mapGroups_fst:
  "fst (mapGroups apiProps hasAccounts hasSudo gs st) =
     map (\<lambda>g. \<lparr>groupName = groupName g,
               routes = filter (isVisible apiProps hasAccounts hasSudo) (routes g)\<rparr>) gs"
  by (induction gs arbitrary: st) (simp_all add: split_beta filterVisible_fst)

lemma extractGroups_fst:
  "reduceGroups groupNames routing [] = Inr all \<Longrightarrow>
   fst (extractGroups routing groupNames apiProps hasAccounts hasSudo st) =
     Inr (filter (\<lambda>g. routes g \<noteq> [])
       (map (\<lambda>g. \<lparr>groupName = groupName g,
               routes = filter (isVisible apiProps hasAccounts hasSudo) (routes g)\<rparr>)
          (objectValues all)))"
  by (simp add: extractGroups_def split_beta mapGroups_fst)

lemma isVisible_not_hidden: "isVisible apiProps hasAccounts hasSudo r \<Longrightarrow> \<not> isHidden (display r)"
  by (simp add: isVisible_def checkVisible_verdict)

text \<open>
  C5. Whenever \<open>extractGroups\<close> returns its groups, no group lists a route whose
  \<open>isHidden\<close> flag is set, whatever the API properties, the account and sudo flags and
  the state of the log are.
\<close>

theorem hidden_route_never_listed:
  assumes "isHidden (display route)"
    and "fst (extractGroups routing groupNames apiProps hasAccounts hasSudo st) = Inr groups"
  shows "\<forall>g \<in> set groups. route \<notin> set (routes g)"
proof -
  from assms(2) obtain all where "reduceGroups groupNames routing [] = Inr all"
    by (auto simp: extractGroups_def split: sum.splits)
  from extractGroups_fst [OF this] assms(2)
  have "groups = filter (\<lambda>g. routes g \<noteq> [])
       (map (\<lambda>g. \<lparr>groupName = groupName g,
               routes = filter (isVisible apiProps hasAccounts hasSudo) (routes g)\<rparr>)
          (objectValues all))"
    by simp
  with assms(1) show ?thesis
    by (auto dest: isVisible_not_hidden)
qed

theorem hidden_route_never_listed_witness:
  "isHidden (display hiddenRoute)
   \<and> hiddenRoute \<in> set exampleRouting
   \<and> fst (extractGroups exampleRouting exampleNames exampleApi True True initialState)
     = Inr [\<lparr>groupName = Some ''Network'', routes = [stakingRoute, explorerRoute]\<rparr>,
            \<lparr>groupName = Some ''Accounts'', routes = [accountsRoute]\<rparr>,
            \<lparr>groupName = Some ''Settings'', routes = [settingsRoute]\<rparr>]
   \<and> hiddenRoute \<notin> set [stakingRoute, explorerRoute, accountsRoute, settingsRoute]"
proof -
  have hidden: "isHidden (display hiddenRoute)"
    by (simp add: route_defs example_defs)
  have listed: "fst (extractGroups exampleRouting exampleNames exampleApi True True initialState)
     = Inr [\<lparr>groupName = Some ''Network'', routes = [stakingRoute, explorerRoute]\<rparr>,
            \<lparr>groupName = Some ''Accounts'', routes = [accountsRoute]\<rparr>,
            \<lparr>groupName = Some ''Settings'', routes = [settingsRoute]\<rparr>]"
    by (simp add: group_defs check_defs route_defs example_defs)
  from hidden_route_never_listed [OF hidden listed] hidden listed show ?thesis
    by (simp add: exampleRouting_def)
qed

lemma set_firstSeen: "set (firstSeen xs) = set xs"
  by (induction xs) auto

lemma distinct_firstSeen: "distinct (firstSeen xs)"
  by (induction xs) (auto simp: set_firstSeen)

lemma firstSeen_snoc:
  "firstSeen (xs @ [x]) = (if x \<in> set xs then firstSeen xs else firstSeen xs @ [x])"
  by (induction xs) (auto simp: set_firstSeen)

lemma map_of_keyed:
  "map_of (map (\<lambda>k. (k, f k)) ks) k = (if k \<in> set ks then Some (f k) else None)"
  by (induction ks) auto

lemma update_keyed_new:
  "k \<notin> set ks \<Longrightarrow> AList.update k v (map (\<lambda>k. (k, f k)) ks) = map (\<lambda>k. (k, f k)) ks @ [(k, v)]"
  by (induction ks) auto

lemma update_keyed_old:
  "k \<in> set ks \<Longrightarrow> distinct ks \<Longrightarrow>
   AList.update k v (map (\<lambda>k'. (k', f k')) ks) = map (\<lambda>k'. (k', if k' = k then v else f k')) ks"
  by (induction ks) auto

lemma grouped_snoc_old:
  assumes "group r \<in> group ` set pre"
  shows "AList.update (group r)
      (\<lparr>groupName = groupNames (group r), routes = filter (\<lambda>x. group x = group r) pre\<rparr>
         \<lparr>routes := filter (\<lambda>x. group x = group r) pre @ [r]\<rparr>) (grouped groupNames pre)
    = grouped groupNames (pre @ [r])"
  using assms
  by (simp add: grouped_def firstSeen_snoc update_keyed_old set_firstSeen distinct_firstSeen)

lemma grouped_snoc_new:
  assumes "group r \<notin> group ` set pre"
  shows "AList.update (group r) \<lparr>groupName = groupNames (group r), routes = [r]\<rparr>
      (grouped groupNames pre)
    = grouped groupNames (pre @ [r])"
proof -
  have fresh: "\<forall>x \<in> set pre. group x \<noteq> group r"
    using assms by (metis imageI)
  then have "filter (\<lambda>x. group x = group r) pre = []"
    by (simp add: filter_empty_conv)
  moreover have "filter (\<lambda>x. group x = k) pre @ (if group r = k then [r] else [])
      = filter (\<lambda>x. group x = k) pre" if "k \<in> group ` set pre" for k
    using that fresh by auto
  moreover have "\<forall>x \<in> set pre. group r \<noteq> group x"
    using fresh by auto
  ultimately show ?thesis
    using assms
    by (simp add: grouped_def firstSeen_snoc update_keyed_new set_firstSeen)
qed

lemma reduceGroups_grouped:
  "\<forall>r \<in> set rs. group r \<notin> set objectPrototypeKeys \<Longrightarrow>
   reduceGroups groupNames rs (grouped groupNames pre) = Inr (grouped groupNames (pre @ rs))"
proof (induction rs arbitrary: pre)
  case Nil
  then show ?case by simp
next
  case (Cons r rs)
  then have rest: "reduceGroups groupNames rs (grouped groupNames (pre @ [r]))
      = Inr (grouped groupNames (pre @ r # rs))"
    by simp
  show ?case
  proof (cases "group r \<in> group ` set pre")
    case True
    then have "map_of (grouped groupNames pre) (group r)
        = Some \<lparr>groupName = groupNames (group r), routes = filter (\<lambda>x. group x = group r) pre\<rparr>"
      by (simp add: grouped_def map_of_keyed set_firstSeen)
    with rest grouped_snoc_old [OF True] show ?thesis
      by simp
  next
    case False
    then have "map_of (grouped groupNames pre) (group r) = None"
      by (simp add: grouped_def map_of_keyed set_firstSeen)
    with rest grouped_snoc_new [OF False] Cons.prems show ?thesis
      by simp
  qed
qed

lemma objectValues_plain:
  "\<forall>p \<in> set props. \<not> isArrayIndex (fst p) \<Longrightarrow> objectValues props = map snd props"
  by (simp add: objectValues_def filter_empty_conv)

text \<open>
  The claim that the groups come in the order their keys are first seen fails for keys
  that are array indices: \<open>Object.values\<close> lists those first, in numeric order, so a group
  keyed \<open>1\<close> comes before a group keyed \<open>2\<close> that was seen earlier.
\<close>

theorem first_seen_order_counterexample:
  "map group [secondRoute, firstRoute] = [''2'', ''1'']
   \<and> isVisible exampleApi True True secondRoute \<and> isVisible exampleApi True True firstRoute
   \<and> fst (extractGroups [secondRoute, firstRoute] Map.empty exampleApi True True initialState)
       = Inr [\<lparr>groupName = None, routes = [firstRoute]\<rparr>,
              \<lparr>groupName = None, routes = [secondRoute]\<rparr>]
   \<and> computeVisibleGroups [secondRoute, firstRoute] Map.empty (isVisible exampleApi True True)
       = [\<lparr>groupName = None, routes = [secondRoute]\<rparr>,
          \<lparr>groupName = None, routes = [firstRoute]\<rparr>]"
  by (simp add: group_defs check_defs isVisible_def computeVisibleGroups_def route_defs
      example_defs)

text \<open>
  C7, as the code has it. For every route list whose group keys are neither array
  indices nor names of \<open>Object.prototype\<close>, \<open>extractGroups\<close> returns the groups in the
  order their keys are first seen in the input (so a permuted input gives the new
  first-seen order), each with its visible routes in insertion order, and leaves out every
  group without a visible route.
\<close>

theorem groups_in_first_seen_order:
  assumes "\<forall>r \<in> set routing. \<not> isArrayIndex (group r) \<and> group r \<notin> set objectPrototypeKeys"
  shows "fst (extractGroups routing groupNames apiProps hasAccounts hasSudo st)
     = Inr (computeVisibleGroups routing groupNames (isVisible apiProps hasAccounts hasSudo))"
proof -
  have "grouped groupNames [] = []"
    by (simp add: grouped_def)
  with reduceGroups_grouped [of routing groupNames "[]"] assms
  have reduced: "reduceGroups groupNames routing [] = Inr (grouped groupNames routing)"
    by simp
  have "\<forall>p \<in> set (grouped groupNames routing). \<not> isArrayIndex (fst p)"
    using assms by (auto simp: grouped_def set_firstSeen)
  then have "objectValues (grouped groupNames routing) = map snd (grouped groupNames routing)"
    by (rule objectValues_plain)
  with extractGroups_fst [OF reduced] show ?thesis
    by (simp add: computeVisibleGroups_def grouped_def comp_def)
qed

theorem groups_in_first_seen_order_witness:
  "fst (extractGroups exampleRouting exampleNames exampleApi True False initialState)
     = Inr [\<lparr>groupName = Some ''Network'', routes = [stakingRoute, explorerRoute]\<rparr>,
            \<lparr>groupName = Some ''Accounts'', routes = [accountsRoute]\<rparr>,
            \<lparr>groupName = Some ''Settings'', routes = [settingsRoute]\<rparr>]"
proof -
  have "\<forall>r \<in> set exampleRouting.
      \<not> isArrayIndex (group r) \<and> group r \<notin> set objectPrototypeKeys"
    by (simp add: route_defs isArrayIndex_def isDigit_def objectPrototypeKeys_def)
  from groups_in_first_seen_order [OF this] show ?thesis
    by (simp add: computeVisibleGroups_def isVisible_def check_defs route_defs example_defs)
qed

section \<open>The role of a staking account\<close>

lemma indexOf_absent: "indexOf xs x \<ge> -1 \<and> (indexOf xs x = -1 \<longleftrightarrow> x \<notin> set xs)"
  by (induction xs) (auto simp: Let_def)

lemma isValidator_iff:
  "isValidator validators stashId = (\<exists>vs. validators = Some vs \<and> stashId \<in> set vs)"
  by (auto simp: isValidator_def indexOf_absent split: option.splits)

lemma isCandidate_iff:
  "isCandidate (Some \<lparr>waitingIds = Some ws\<rparr>) stashId = (stashId \<in> set ws)"
  by (simp add: isCandidate_def indexOf_absent)

text \<open>
  Each flag is read on its own: with no guarantor data, a stash in the loaded validator
  set is a Validator.
\<close>

lemma deriveRole_loaded_validators:
  "deriveRole None (Some [''5Stash'']) (Some \<lparr>waitingIds = Some []\<rparr>) ''5Stash'' = Validator"
  by (simp add: deriveRole_def classifyRole_def isGuarantor_def isValidator_def isCandidate_def)

text \<open>
  C4. While nothing has loaded, the role is meant to be the default Bonded. With
  guarantor data null, the validator set absent and the \<open>targets\<close> property present
  without its \<open>waitingIds\<close> list, the role effect gives Candidate for every stash:
  \<open>targets.waitingIds?.indexOf(stashId)\<close> is \<open>undefined\<close>, and \<open>undefined != -1\<close> is true. The
  guard on the validator set next to it gives a false flag on its absent input.
\<close>

theorem absent_waitingIds_is_candidate:
  "deriveRole None None (Some \<lparr>waitingIds = None\<rparr>) stashId = Candidate
   \<and> isCandidate (Some \<lparr>waitingIds = None\<rparr>) stashId = True
   \<and> isValidator None stashId = False
   \<and> isGuarantor None = False"
  by (simp add: deriveRole_def classifyRole_def isGuarantor_def isValidator_def isCandidate_def)

section \<open>The effective guaranteed stake\<close>

lemma bitLength_le: "n < 2 ^ k \<Longrightarrow> bitLength n \<le> k"
proof (induction k arbitrary: n)
  case 0
  then show ?case by (simp add: bitLength.simps)
next
  case (Suc k)
  show ?case
  proof (cases "n = 0")
    case True
    then show ?thesis by (simp add: bitLength.simps)
  next
    case False
    from Suc.prems have "n div 2 < 2 ^ k" by simp
    then have "bitLength (n div 2) \<le> k" by (rule Suc.IH)
    with False show ?thesis by (subst bitLength.simps) simp
  qed
qed

lemma Number_exact: "n \<le> 2 ^ 53 \<Longrightarrow> Number n = n"
proof (cases "n = 2 ^ 53")
  case True
  then show ?thesis by (simp add: Number_def bitLength.simps Let_def)
next
  case False
  assume "n \<le> 2 ^ 53"
  with False have "n < 2 ^ 53" by simp
  then have "bitLength n \<le> 53" by (rule bitLength_le)
  then show ?thesis by (simp add: Number_def Let_def)
qed

lemma reduceStake_exact:
  "\<forall>t \<in> set ts. stake t \<le> 2 ^ 53 \<Longrightarrow> reduceStake ts acc = Some (acc + sum_list (map stake ts))"
proof (induction ts arbitrary: acc)
  case Nil
  then show ?case by simp
next
  case (Cons t ts)
  then have "stake t \<le> 2 ^ 53" by simp
  then have "bnOfNumber (stake t) = Some (stake t)"
    by (simp add: bnOfNumber_def Number_exact Let_def)
  with Cons show ?case by (simp add: add.assoc)
qed

lemma stakeValue_exact:
  "\<forall>t \<in> set ts. stake t \<le> 2 ^ 53 \<Longrightarrow> stakeValue ts = Some (exactStake ts)"
  by (simp add: stakeValue_def exactStake_def reduceStake_exact)

lemma stakeValue_example:
  "stakeValue [\<lparr>who = ''5A'', stake = 100\<rparr>, \<lparr>who = ''5B'', stake = 250\<rparr>] = Some 350"
  by (simp add: stakeValue_exact exactStake_def)

text \<open>
  C3. The stake is meant to be the exact sum of the targets' values. It is for values up
  to \<open>2^53\<close> (\<open>stakeValue_exact\<close>), but each value goes through \<open>Number\<close>: a target of
  \<open>2^53 + 1\<close> is summed as \<open>2^53\<close>.
\<close>

theorem stakeValue_rounds_above_2_53:
  "exactStake [\<lparr>who = ''5A'', stake = 9007199254740993\<rparr>] = 9007199254740993
   \<and> stakeValue [\<lparr>who = ''5A'', stake = 9007199254740993\<rparr>] = Some 9007199254740992"
  by (simp add: stakeValue_def exactStake_def bnOfNumber_def Number_def bitLength.simps Let_def)

end
